theory Spec2Isabelle
  imports Main "HOL-Library.AList" "HOL-Library.Sublist"
begin

section \<open>Python values used by the form\<close>

text \<open>
  The exceptions the program can raise. \<open>KeyError\<close> carries the missing key, as Python's
  does. \<open>JSONDecodeError\<close> and \<open>OSError\<close> come from \<^verbatim>\<open>json.load(open(file_name))\<close>.
  A method call is modelled with result type \<open>py_error + 'a\<close>: \<open>Inl\<close> is a raised
  exception, \<open>Inr\<close> a normal return.
\<close>

datatype py_error =
    KeyError string
  | AttributeError
  | NotImplementedError
  | JSONDecodeError
  | OSError

text \<open>
  \<^verbatim>\<open>s.split(c)\<close> for a one-character separator and \<^verbatim>\<open>sep.join(xs)\<close>. Python strings are
  sequences of code points; the separators used by the program (newline, comma, space) are
  ASCII, so reading a string as its list of bytes gives the same segments.
\<close>

fun str_split :: "char \<Rightarrow> string \<Rightarrow> string list" where
  "str_split c [] = [[]]"
| "str_split c (x # xs) =
     (if x = c then [] # str_split c xs
      else (x # hd (str_split c xs)) # tl (str_split c xs))"

fun str_join :: "string \<Rightarrow> string list \<Rightarrow> string" where
  "str_join sep [] = []"
| "str_join sep [x] = x"
| "str_join sep (x # y # ys) = x @ sep @ str_join sep (y # ys)"

definition newline :: char where
  "newline = CHR 0x0A"

section \<open>Leaf fields\<close>

text \<open>
  The classes \<^verbatim>\<open>UserField\<close>, \<^verbatim>\<open>LineEditField\<close>, \<^verbatim>\<open>MultipleTextEdit\<close> and
  \<^verbatim>\<open>MultipleFilesEdit\<close>. Each object keeps its \<^verbatim>\<open>_name\<close>; a \<^verbatim>\<open>LineEditField\<close> also
  holds the text of its \<^verbatim>\<open>QLineEdit\<close> (what \<^verbatim>\<open>self._le.text()\<close> returns) and a
  \<^verbatim>\<open>MultipleTextEdit\<close> the plain text of its \<^verbatim>\<open>QTextEdit\<close> (what
  \<^verbatim>\<open>self._te.toPlainText()\<close> returns). \<^verbatim>\<open>MultipleFilesEdit\<close> has an empty class body:
  it inherits \<^verbatim>\<open>__init__\<close> and \<^verbatim>\<open>data\<close> from \<^verbatim>\<open>UserField\<close>.
\<close>

datatype user_field =
    UserField string
  | LineEditField string string
  | MultipleTextEdit string string
  | MultipleFilesEdit string

text \<open>The constructors as they are called, \<^verbatim>\<open>cls(parent, name)\<close>: the editors start empty.\<close>

definition new_LineEditField :: "string \<Rightarrow> user_field" where
  "new_LineEditField nm = LineEditField nm []"

definition new_MultipleTextEdit :: "string \<Rightarrow> user_field" where
  "new_MultipleTextEdit nm = MultipleTextEdit nm []"

definition new_MultipleFilesEdit :: "string \<Rightarrow> user_field" where
  "new_MultipleFilesEdit nm = MultipleFilesEdit nm"

text \<open>The method \<^verbatim>\<open>data\<close> of each class.\<close>

fun field_data :: "user_field \<Rightarrow> py_error + string" where
  "field_data (UserField nm) = Inl NotImplementedError"
| "field_data (LineEditField nm le) = Inr le"
| "field_data (MultipleTextEdit nm te) = Inr (str_join '', '' (str_split newline te))"
| "field_data (MultipleFilesEdit nm) = Inl NotImplementedError"

text \<open>The user types into the editor of a field: the toolkit replaces its text.\<close>

fun set_text :: "string \<Rightarrow> user_field \<Rightarrow> user_field" where
  "set_text s (UserField nm) = UserField nm"
| "set_text s (LineEditField nm le) = LineEditField nm s"
| "set_text s (MultipleTextEdit nm te) = MultipleTextEdit nm s"
| "set_text s (MultipleFilesEdit nm) = MultipleFilesEdit nm"

text \<open>
  The class attribute \<^verbatim>\<open>SUPPORTED_USER_FIELD_TYPES\<close>, a dictionary from the schema's
  field identifier to the class that is instantiated.
\<close>

definition SUPPORTED_USER_FIELD_TYPES :: "(string \<times> (string \<Rightarrow> user_field)) list" where
  "SUPPORTED_USER_FIELD_TYPES =
     [(''LineEdit'', new_LineEditField),
      (''MultipleTextEdit'', new_MultipleTextEdit),
      (''MultipleFilesEdit'', new_MultipleTextEdit)]"

section \<open>The selection control\<close>

text \<open>
  \<^verbatim>\<open>QComboBox\<close> belongs to the toolkit, not to the repository. Only what the program uses
  is kept: the item texts and the current index (\<open>-1\<close> when there is none). Adding items
  to an empty box makes the first one current; \<^verbatim>\<open>currentText()\<close> is the empty string when
  no item is current. The box is not editable, so the user can only pick one of its items.
\<close>

datatype combo = Combo (items: "string list") (currentIndex: int)

definition QComboBox :: combo where
  "QComboBox = Combo [] (- 1)"

definition clear :: "combo \<Rightarrow> combo" where
  "clear c = Combo [] (- 1)"

definition addItems :: "string list \<Rightarrow> combo \<Rightarrow> combo" where
  "addItems texts c =
     Combo (items c @ texts)
       (if currentIndex c < 0 \<and> items c @ texts \<noteq> [] then 0 else currentIndex c)"

definition currentText :: "combo \<Rightarrow> string" where
  "currentText c =
     (if 0 \<le> currentIndex c \<and> currentIndex c < int (length (items c))
      then items c ! nat (currentIndex c) else [])"

section \<open>The schema\<close>

text \<open>
  The dictionary that \<^verbatim>\<open>json.load\<close> returns, in the shape the constructor is written for:
  a fragment is an object whose \<^verbatim>\<open>"name"\<close> is a string and whose \<^verbatim>\<open>"properties"\<close> and
  \<^verbatim>\<open>"subwidgets"\<close> are arrays of objects. Every key may be absent (\<open>None\<close>); keys the
  program never reads are left out.
\<close>

datatype property_info = PropertyInfo (p_name: "string option") (p_field: "string option")

datatype schema =
  Schema (s_name: "string option")
         (s_properties: "property_info list option")
         (s_subwidgets: "schema list option")

section \<open>Tree nodes\<close>

text \<open>
  An \<^verbatim>\<open>AdaptiveTreeNode\<close> object with its attributes \<^verbatim>\<open>_name\<close>, \<^verbatim>\<open>_label_name\<close>,
  \<^verbatim>\<open>_properties_widgets\<close>, \<^verbatim>\<open>_subwidgets\<close>, \<^verbatim>\<open>_select_combo\<close> and
  \<^verbatim>\<open>_selected_widget\<close>, and whether its Qt parent is an \<^verbatim>\<open>AdaptiveTreeNode\<close> (what
  \<^verbatim>\<open>isinstance(self.parent(), AdaptiveTreeNode)\<close> answers).

  The two dictionaries are association lists in insertion order; \<open>AList.update\<close> is
  Python's \<^verbatim>\<open>d[k] = v\<close> (an existing key keeps its place and takes the new value, a new
  key goes to the end).

  A node owns its children: each child object is referenced from its parent's
  \<^verbatim>\<open>_subwidgets\<close> under one key, and from nowhere else but the parent's
  \<^verbatim>\<open>_selected_widget\<close>. That second reference is an alias of one of the dictionary's
  values, so it is kept as the key of the entry it points to: a later change inside the
  child is then seen through both, as it is in Python.

  The calls that only change what Qt draws (\<^verbatim>\<open>show\<close>, \<^verbatim>\<open>hide\<close>, the layouts) touch no
  attribute that the program reads back and are left out.
\<close>

datatype node =
  AdaptiveTreeNode
    (parent_is_node: bool)
    (node_name: string)
    (node_label_name: "string option")
    (node_properties_widgets: "(string \<times> user_field) list")
    (node_subwidgets: "(string \<times> node) list")
    (node_select_combo: "combo option")
    (node_selected_widget: "string option")

fun set_properties_widgets :: "(string \<times> user_field) list \<Rightarrow> node \<Rightarrow> node" where
  "set_properties_widgets v (AdaptiveTreeNode p n l ps ss c s) = AdaptiveTreeNode p n l v ss c s"

fun set_subwidgets :: "(string \<times> node) list \<Rightarrow> node \<Rightarrow> node" where
  "set_subwidgets v (AdaptiveTreeNode p n l ps ss c s) = AdaptiveTreeNode p n l ps v c s"

fun set_select_combo :: "combo option \<Rightarrow> node \<Rightarrow> node" where
  "set_select_combo v (AdaptiveTreeNode p n l ps ss c s) = AdaptiveTreeNode p n l ps ss v s"

fun set_selected_widget :: "string option \<Rightarrow> node \<Rightarrow> node" where
  "set_selected_widget v (AdaptiveTreeNode p n l ps ss c s) = AdaptiveTreeNode p n l ps ss c v"

fun set_name :: "string \<Rightarrow> node \<Rightarrow> node" where
  "set_name v (AdaptiveTreeNode p n l ps ss c s) = AdaptiveTreeNode p v l ps ss c s"

text \<open>The object that \<^verbatim>\<open>self._selected_widget\<close> refers to, if any.\<close>

definition selected_widget :: "node \<Rightarrow> node option" where
  "selected_widget self =
     (case node_selected_widget self of
        None \<Rightarrow> None
      | Some k \<Rightarrow> map_of (node_subwidgets self) k)"

subsection \<open>\<^verbatim>\<open>update_subwidgets\<close> and \<^verbatim>\<open>on_selection_changed\<close>\<close>

text \<open>
  The loop over \<^verbatim>\<open>self._subwidgets.items()\<close>: the entry whose key equals \<open>name\<close> is
  assigned to \<^verbatim>\<open>_selected_widget\<close>; the other entries are only hidden. The method has
  no \<^verbatim>\<open>raise\<close> and calls nothing that can fail. A method that changes its object
  returns the object after the call together with the outcome of the call (\<open>Inl\<close> an
  exception that was raised, \<open>Inr ()\<close> a normal return).
\<close>

fun update_loop :: "string \<Rightarrow> (string \<times> node) list \<Rightarrow> string option \<Rightarrow> string option" where
  "update_loop nm [] sel = sel"
| "update_loop nm ((widget_name, widget) # rest) sel =
     update_loop nm rest (if widget_name = nm then Some widget_name else sel)"

definition update_subwidgets :: "string \<Rightarrow> node \<Rightarrow> node \<times> (py_error + unit)" where
  "update_subwidgets nm self =
     (set_selected_widget
        (update_loop nm (node_subwidgets self) (node_selected_widget self)) self,
      Inr ())"

definition on_selection_changed :: "string \<Rightarrow> node \<Rightarrow> node \<times> (py_error + unit)" where
  "on_selection_changed txt self = update_subwidgets txt self"

subsection \<open>\<^verbatim>\<open>AdaptiveTreeNode.__init__\<close>\<close>

text \<open>
  The loop over \<^verbatim>\<open>tree["properties"]\<close>. The class is looked up first
  (\<^verbatim>\<open>properties_info["field"]\<close>, then the dictionary of supported types), then the
  argument \<^verbatim>\<open>properties_info["name"]\<close> is read; each lookup raises \<^verbatim>\<open>KeyError\<close> on a
  missing key.
\<close>

fun init_properties ::
  "property_info list \<Rightarrow> (string \<times> user_field) list \<Rightarrow> py_error + (string \<times> user_field) list"
where
  "init_properties [] acc = Inr acc"
| "init_properties (properties_info # rest) acc =
     (case p_field properties_info of
        None \<Rightarrow> Inl (KeyError ''field'')
      | Some kind \<Rightarrow>
          (case map_of SUPPORTED_USER_FIELD_TYPES kind of
             None \<Rightarrow> Inl (KeyError kind)
           | Some cls \<Rightarrow>
               (case p_name properties_info of
                  None \<Rightarrow> Inl (KeyError ''name'')
                | Some nm \<Rightarrow> init_properties rest (AList.update nm (cls nm) acc))))"

text \<open>
  The block guarded by \<^verbatim>\<open>if self._subwidgets.keys()\<close>: a fresh selection control filled
  with the keys, then \<^verbatim>\<open>self.update_subwidgets(self._select_combo.currentText())\<close>.
\<close>

definition init_select_combo :: "node \<Rightarrow> py_error + node" where
  "init_select_combo self =
     (if map fst (node_subwidgets self) \<noteq> [] then
        (let c = addItems (map fst (node_subwidgets self)) (clear QComboBox)
         in (case update_subwidgets (currentText c) (set_select_combo (Some c) self) of
               (self', Inl e) \<Rightarrow> Inl e
             | (self', Inr u) \<Rightarrow> Inr self'))
      else Inr self)"

text \<open>
  The constructor. \<open>parent\<close> is \<open>Some\<close> of the parent's \<^verbatim>\<open>_name\<close> when the parent is an
  \<^verbatim>\<open>AdaptiveTreeNode\<close> (the only attribute of the parent that is read) and \<open>None\<close> when it
  is any other widget. \<^verbatim>\<open>tree["name"]\<close> is read first and raises \<^verbatim>\<open>KeyError\<close> when the
  key is absent; the children are built before the properties.
\<close>

fun AdaptiveTreeNode_init :: "string option \<Rightarrow> schema \<Rightarrow> py_error + node"
and init_subwidgets ::
  "string \<Rightarrow> schema list \<Rightarrow> (string \<times> node) list \<Rightarrow> py_error + (string \<times> node) list"
where
  "AdaptiveTreeNode_init parent (Schema tree_name tree_properties tree_subwidgets) =
     (case tree_name of
        None \<Rightarrow> Inl (KeyError ''name'')
      | Some nm \<Rightarrow>
          (case (case tree_subwidgets of
                   None \<Rightarrow> Inr []
                 | Some infos \<Rightarrow> init_subwidgets nm infos []) of
             Inl e \<Rightarrow> Inl e
           | Inr subs \<Rightarrow>
               (case (case tree_properties of
                        None \<Rightarrow> Inr []
                      | Some properties_dicts \<Rightarrow> init_properties properties_dicts []) of
                  Inl e \<Rightarrow> Inl e
                | Inr props \<Rightarrow>
                    init_select_combo
                      (AdaptiveTreeNode (parent \<noteq> None) nm
                         (map_option (\<lambda>parent_name. nm @ '' '' @ parent_name) parent)
                         props subs None None))))"
| "init_subwidgets nm [] acc = Inr acc"
| "init_subwidgets nm (subwidget_info # rest) acc =
     (case AdaptiveTreeNode_init (Some nm) subwidget_info of
        Inl e \<Rightarrow> Inl e
      | Inr subwidget \<Rightarrow>
          (case s_name subwidget_info of
             None \<Rightarrow> Inl (KeyError ''name'')
           | Some k \<Rightarrow> init_subwidgets nm rest (AList.update k subwidget acc)))"

subsection \<open>\<^verbatim>\<open>AdaptiveTreeNode.data\<close>\<close>

text \<open>The list comprehension \<^verbatim>\<open>[prop.data() for prop in ...values()]\<close>.\<close>

fun props_data :: "user_field list \<Rightarrow> py_error + string list" where
  "props_data [] = Inr []"
| "props_data (prop # rest) =
     (case field_data prop of
        Inl e \<Rightarrow> Inl e
      | Inr d \<Rightarrow> (case props_data rest of Inl e \<Rightarrow> Inl e | Inr ds \<Rightarrow> Inr (d # ds)))"

text \<open>
  A node whose parent is a node returns its name, its properties and the data of
  \<^verbatim>\<open>self._selected_widget\<close>; any other node returns the data of the child stored under the
  current text of its selection control. Calling a method on \<^verbatim>\<open>None\<close> raises
  \<^verbatim>\<open>AttributeError\<close>, and \<^verbatim>\<open>self._subwidgets[...]\<close> raises \<^verbatim>\<open>KeyError\<close> on a missing key.
\<close>

function data :: "node \<Rightarrow> py_error + string" where
  "data self =
     (if parent_is_node self then
        (case (if node_properties_widgets self \<noteq> [] then
                 (case props_data (map snd (node_properties_widgets self)) of
                    Inl e \<Rightarrow> Inl e
                  | Inr ds \<Rightarrow> Inr (node_name self @ '' '' @ str_join '', '' ds))
               else Inr (node_name self)) of
           Inl e \<Rightarrow> Inl e
         | Inr result \<Rightarrow>
             (if node_subwidgets self \<noteq> [] then
                (case selected_widget self of
                   None \<Rightarrow> Inl AttributeError
                 | Some w \<Rightarrow>
                     (case data w of
                        Inl e \<Rightarrow> Inl e
                      | Inr d \<Rightarrow> Inr (result @ '' '' @ d)))
              else Inr result))
      else
        (case node_select_combo self of
           None \<Rightarrow> Inl AttributeError
         | Some c \<Rightarrow>
             (case map_of (node_subwidgets self) (currentText c) of
                None \<Rightarrow> Inl (KeyError (currentText c))
              | Some w \<Rightarrow> data w)))"
  by pat_completeness auto
termination
proof (relation "measure size")
  have sz: "map_of ss k = Some w \<Longrightarrow> size w < Suc (size_list (size_prod (\<lambda>_. 0) size) ss)"
    for ss :: "(string \<times> node) list" and k w
    by (induction ss) (auto split: if_splits)
  show "wf (measure size)" by simp
  show "(w, self) \<in> measure size"
    if "selected_widget self = Some w" for self w
    using that sz [of "node_subwidgets self" _ w]
    by (cases self) (auto simp: selected_widget_def split: option.splits)
  show "(w, self) \<in> measure size"
    if "map_of (node_subwidgets self) (currentText c) = Some w" for self c w
    using that sz [of "node_subwidgets self" "currentText c" w]
    by (cases self) auto
qed

declare data.simps [simp del]

section \<open>The form\<close>

text \<open>
  \<^verbatim>\<open>AdaptiveTreeForm\<close> with its attribute \<^verbatim>\<open>_root\<close>. \<^verbatim>\<open>json.load(open(file_name))\<close> is
  the library's: \<open>json_load\<close> stands for it and gives either the exception it raises or
  the parsed schema. In \<^verbatim>\<open>load_from_file\<close> the assignment to \<^verbatim>\<open>self._root\<close> is executed
  only after the parser and the constructor have both returned.
\<close>

datatype form = AdaptiveTreeForm (form_root: "node option")

definition load_from_file ::
  "(string \<Rightarrow> py_error + schema) \<Rightarrow> string \<Rightarrow> form \<Rightarrow> form \<times> (py_error + unit)"
where
  "load_from_file json_load file_name self =
     (case json_load file_name of
        Inl e \<Rightarrow> (self, Inl e)
      | Inr tree \<Rightarrow>
          (case AdaptiveTreeNode_init None tree of
             Inl e \<Rightarrow> (self, Inl e)
           | Inr new_root \<Rightarrow> (AdaptiveTreeForm (Some new_root), Inr ())))"

text \<open>\<^verbatim>\<open>AdaptiveTreeForm.data\<close>: Python's \<^verbatim>\<open>None\<close> when no root is set.\<close>

definition form_data :: "form \<Rightarrow> py_error + string option" where
  "form_data self =
     (case form_root self of
        None \<Rightarrow> Inr None
      | Some r \<Rightarrow> (case data r of Inl e \<Rightarrow> Inl e | Inr d \<Rightarrow> Inr (Some d)))"

section \<open>What happens to a loaded tree\<close>

text \<open>
  A node inside the tree is addressed by the keys that lead to it from the root.
  \<open>modify_at\<close> applies a change to the object at a path; a path that leads to no object
  changes nothing.
\<close>

fun modify_at :: "string list \<Rightarrow> (node \<Rightarrow> node) \<Rightarrow> node \<Rightarrow> node" where
  "modify_at [] f self = f self"
| "modify_at (k # ks) f self =
     (case map_of (node_subwidgets self) k of
        None \<Rightarrow> self
      | Some w \<Rightarrow>
          set_subwidgets (AList.update k (modify_at ks f w) (node_subwidgets self)) self)"

text \<open>
  The user types \<open>s\<close> into the editor stored under key \<open>k\<close> of a node.
\<close>

definition user_types :: "string \<Rightarrow> string \<Rightarrow> node \<Rightarrow> node" where
  "user_types k s self =
     (case map_of (node_properties_widgets self) k of
        None \<Rightarrow> self
      | Some fld \<Rightarrow>
          set_properties_widgets
            (AList.update k (set_text s fld) (node_properties_widgets self)) self)"

text \<open>
  The user picks item \<open>i\<close> of a node's selection control. When this changes the current
  index, the toolkit emits \<^verbatim>\<open>currentTextChanged\<close> with the item's text, which is connected
  to \<^verbatim>\<open>on_selection_changed\<close>.
\<close>

definition user_picks :: "nat \<Rightarrow> node \<Rightarrow> node" where
  "user_picks i self =
     (case node_select_combo self of
        None \<Rightarrow> self
      | Some c \<Rightarrow>
          (if i < length (items c) \<and> int i \<noteq> currentIndex c then
             fst (on_selection_changed (items c ! i)
                    (set_select_combo (Some (Combo (items c) (int i))) self))
           else self))"

text \<open>
  The events of a session: the two things a user can do, and a direct call of
  \<^verbatim>\<open>update_subwidgets\<close> with any name at all. The program itself makes such a call only
  from its constructor and from \<^verbatim>\<open>on_selection_changed\<close>.
\<close>

datatype event =
    UserTypes "string list" string string
  | UserPicks "string list" nat
  | UpdateSubwidgets "string list" string

fun is_user_event :: "event \<Rightarrow> bool" where
  "is_user_event (UserTypes p k s) = True"
| "is_user_event (UserPicks p i) = True"
| "is_user_event (UpdateSubwidgets p nm) = False"

fun step :: "event \<Rightarrow> node \<Rightarrow> node" where
  "step (UserTypes p k s) r = modify_at p (user_types k s) r"
| "step (UserPicks p i) r = modify_at p (user_picks i) r"
| "step (UpdateSubwidgets p nm) r = modify_at p (\<lambda>self. fst (update_subwidgets nm self)) r"

definition run :: "event list \<Rightarrow> node \<Rightarrow> node" where
  "run evs r = fold step evs r"

section \<open>Predicates on trees\<close>

text \<open>A node and everything below it.\<close>

fun all_nodes :: "node \<Rightarrow> node list" where
  "all_nodes (AdaptiveTreeNode p n l ps ss c s) =
     AdaptiveTreeNode p n l ps ss c s # concat (map (\<lambda>kw. all_nodes (snd kw)) ss)"

text \<open>
  The children of a node that \<^verbatim>\<open>_selected_widget\<close> refers to.
\<close>

definition active_children :: "node \<Rightarrow> (string \<times> node) list" where
  "active_children self =
     filter (\<lambda>kw. node_selected_widget self = Some (fst kw)) (node_subwidgets self)"

text \<open>The field objects the dictionary of supported types can create.\<close>

fun is_supported :: "user_field \<Rightarrow> bool" where
  "is_supported (LineEditField nm le) = True"
| "is_supported (MultipleTextEdit nm te) = True"
| "is_supported (UserField nm) = False"
| "is_supported (MultipleFilesEdit nm) = False"

text \<open>
  What holds of every node of a tree, from its construction on: the keys of a dictionary
  are distinct, the fields come from the supported types, a node without children has no
  selection control, a node with children has its \<^verbatim>\<open>_selected_widget\<close> among them, and
  every child has a node as its parent.
\<close>

fun node_ok :: "node \<Rightarrow> bool" where
  "node_ok (AdaptiveTreeNode p n l ps ss c s) =
     (distinct (map fst ss) \<and>
      list_all (\<lambda>kf. is_supported (snd kf)) ps \<and>
      (ss = [] \<longrightarrow> c = None) \<and>
      (ss \<noteq> [] \<longrightarrow> (case s of None \<Rightarrow> False | Some k \<Rightarrow> k \<in> set (map fst ss))) \<and>
      list_all (\<lambda>kw. parent_is_node (snd kw) \<and> node_ok (snd kw)) ss)"

text \<open>
  The selection control of a node agrees with its dictionary and with
  \<^verbatim>\<open>_selected_widget\<close>: its items are the keys and its current text is the key of the
  selected child.
\<close>

definition combo_ok :: "node \<Rightarrow> bool" where
  "combo_ok self =
     (node_subwidgets self \<noteq> [] \<longrightarrow>
        (case node_select_combo self of
           None \<Rightarrow> False
         | Some c \<Rightarrow>
             items c = map fst (node_subwidgets self) \<and>
             0 \<le> currentIndex c \<and> currentIndex c < int (length (items c)) \<and>
             node_selected_widget self = Some (currentText c)))"

text \<open>
  The state of a node right after its constructor has run: when it has children, the
  first entry of \<^verbatim>\<open>_subwidgets\<close> is the selected one.
\<close>

definition first_selected :: "node \<Rightarrow> bool" where
  "first_selected self =
     (node_subwidgets self \<noteq> [] \<longrightarrow>
        node_selected_widget self = Some (fst (hd (node_subwidgets self))))"

text \<open>A child as the constructor leaves it, with everything below it.\<close>

definition freshly_built :: "node \<Rightarrow> bool" where
  "freshly_built w = (parent_is_node w \<and> node_ok w \<and> list_all first_selected (all_nodes w))"

section \<open>Schemas and trees used as examples\<close>

text \<open>
  The dictionary shown in the docstring of \<^verbatim>\<open>AdaptiveTreeNode.__init__\<close> as what the
  constructor is given: first its only subwidget, then the whole dictionary, whose
  outermost object has no \<^verbatim>\<open>"name"\<close> entry.
\<close>

definition issue_example :: schema where
  "issue_example =
     Schema (Some ''Issue'')
       (Some [PropertyInfo (Some ''issue_number'') (Some ''LineEdit'')])
       (Some [Schema (Some ''In file(s)'')
                (Some [PropertyInfo (Some ''file_names'') (Some ''MultipleFilesEdit'')])
                None,
              Schema (Some ''In class'')
                (Some [PropertyInfo (Some ''class_names'') (Some ''MultipleTextEdit'')])
                None,
              Schema (Some []) None None])"

definition docstring_example :: schema where
  "docstring_example = Schema None None (Some [issue_example])"

text \<open>
  The same schema with a name on the outermost object, and the tree built from it: the
  root and, below it, the node for \<open>''Issue''\<close>.
\<close>

definition named_example :: schema where
  "named_example = Schema (Some ''Form'') None (Some [issue_example])"

definition example_issue :: node where
  "example_issue =
     AdaptiveTreeNode True ''Issue'' (Some ''Issue Form'')
       [(''issue_number'', LineEditField ''issue_number'' [])]
       [(''In file(s)'',
         AdaptiveTreeNode True ''In file(s)'' (Some ''In file(s) Issue'')
          [(''file_names'', MultipleTextEdit ''file_names'' [])] [] None None),
        (''In class'',
         AdaptiveTreeNode True ''In class'' (Some ''In class Issue'')
          [(''class_names'', MultipleTextEdit ''class_names'' [])] [] None None),
        ([], AdaptiveTreeNode True [] (Some '' Issue'') [] [] None None)]
       (Some (Combo [''In file(s)'', ''In class'', []] 0))
       (Some ''In file(s)'')"

definition example_root :: node where
  "example_root =
     AdaptiveTreeNode False ''Form'' None [] [(''Issue'', example_issue)]
       (Some (Combo [''Issue''] 0)) (Some ''Issue'')"




text \<open>
  A schema like the first scenario of the specification: its property asks for the field
  identifier \<open>''single-line''\<close>, which the dictionary of supported types does not have.
\<close>

definition unsupported_example :: schema where
  "unsupported_example =
     Schema (Some ''Form'') None
       (Some [Schema (Some ''Issue'')
                (Some [PropertyInfo (Some ''issue_number'') (Some ''single-line'')]) None])"

section \<open>Further notions used in the statements\<close>

text \<open>A property whose field identifier is not a key of the supported types.\<close>

definition unknown_kind :: "property_info \<Rightarrow> bool" where
  "unknown_kind properties_info =
     (case p_field properties_info of
        None \<Rightarrow> False
      | Some kind \<Rightarrow> map_of SUPPORTED_USER_FIELD_TYPES kind = None)"

text \<open>A schema with such a property somewhere.\<close>

fun has_unknown_kind :: "schema \<Rightarrow> bool" where
  "has_unknown_kind (Schema tree_name tree_properties tree_subwidgets) =
     ((case tree_properties of None \<Rightarrow> False | Some ps \<Rightarrow> list_ex unknown_kind ps) \<or>
      (case tree_subwidgets of None \<Rightarrow> False | Some infos \<Rightarrow> list_ex has_unknown_kind infos))"

text \<open>The object a path leads to.\<close>

fun node_at :: "string list \<Rightarrow> node \<Rightarrow> node option" where
  "node_at [] self = Some self"
| "node_at (k # ks) self =
     (case map_of (node_subwidgets self) k of None \<Rightarrow> None | Some w \<Rightarrow> node_at ks w)"


section \<open>Splitting and joining\<close>

lemma str_split_not_Nil [simp]: "str_split c s \<noteq> []"
  by (induction s) auto




lemma str_split_no_sep: "seg \<in> set (str_split c s) \<Longrightarrow> c \<notin> set seg"
proof (induction s arbitrary: seg)
  case Nil
  then show ?case by simp
next
  case (Cons x s)
  obtain y ys where e: "str_split c s = y # ys" by (cases "str_split c s") auto
  show ?case using Cons e by (auto split: if_splits)
qed





section \<open>The leaf fields and their registry\<close>



text \<open>
  Claim C9. The dictionary of supported types maps \<open>''MultipleFilesEdit''\<close> to the class
  \<^verbatim>\<open>MultipleTextEdit\<close>, the same entry as for \<open>''MultipleTextEdit''\<close> and not the class
  \<^verbatim>\<open>MultipleFilesEdit\<close>; the value of a field created for that identifier is therefore
  the raw text split at newlines and joined with \<open>'', ''\<close>.
\<close>

theorem registry_files_edit_is_text_edit:
  "map_of SUPPORTED_USER_FIELD_TYPES ''MultipleFilesEdit'' = Some new_MultipleTextEdit \<and>
   map_of SUPPORTED_USER_FIELD_TYPES ''MultipleFilesEdit''
     = map_of SUPPORTED_USER_FIELD_TYPES ''MultipleTextEdit'' \<and>
   map_of SUPPORTED_USER_FIELD_TYPES ''MultipleFilesEdit'' \<noteq> Some new_MultipleFilesEdit \<and>
   field_data (set_text raw (the (map_of SUPPORTED_USER_FIELD_TYPES ''MultipleFilesEdit'') nm))
     = Inr (str_join '', '' (str_split newline raw))"
  by (auto simp: SUPPORTED_USER_FIELD_TYPES_def new_MultipleTextEdit_def
        new_MultipleFilesEdit_def fun_eq_iff)


section \<open>Selection and construction\<close>

lemma update_loop_absent: "nm \<notin> set (map fst ss) \<Longrightarrow> update_loop nm ss sel = sel"
  by (induction nm ss sel rule: update_loop.induct) auto

lemma update_loop_present: "nm \<in> set (map fst ss) \<Longrightarrow> update_loop nm ss sel = Some nm"
proof (induction nm ss sel rule: update_loop.induct)
  case (1 nm sel)
  then show ?case by simp
next
  case (2 nm widget_name widget rest sel)
  show ?case
  proof (cases "nm \<in> set (map fst rest)")
    case True
    with 2 show ?thesis by simp
  next
    case False
    with 2 show ?thesis by (auto simp: update_loop_absent)
  qed
qed

lemma list_all_snd_update:
  "list_all (\<lambda>kv. Q (snd kv)) al \<Longrightarrow> Q v \<Longrightarrow> list_all (\<lambda>kv. Q (snd kv)) (AList.update k v al)"
  by (induction al) auto

lemma map_of_list_all_snd:
  "list_all (\<lambda>kv. Q (snd kv)) al \<Longrightarrow> map_of al k = Some v \<Longrightarrow> Q v"
  by (induction al) (auto split: if_splits)

lemma keys_update_present:
  "map_of al k = Some v \<Longrightarrow> map fst (AList.update k v' al) = map fst al"
  by (induction al) (auto split: if_splits)

lemma is_supported_set_text [simp]: "is_supported (set_text s fld) = is_supported fld"
  by (cases fld) auto

lemma supported_classes:
  "map_of SUPPORTED_USER_FIELD_TYPES kind = Some cls \<Longrightarrow> is_supported (cls nm)"
  by (auto simp: SUPPORTED_USER_FIELD_TYPES_def new_LineEditField_def new_MultipleTextEdit_def
      split: if_splits)

lemma init_properties_supported:
  "init_properties ps acc = Inr props \<Longrightarrow> list_all (\<lambda>kf. is_supported (snd kf)) acc \<Longrightarrow>
   list_all (\<lambda>kf. is_supported (snd kf)) props"
proof (induction ps acc rule: init_properties.induct)
  case (1 acc)
  then show ?case by simp
next
  case (2 properties_info rest acc)
  then show ?case
    by (auto split: option.splits intro!: list_all_snd_update [where Q = is_supported]
        dest: supported_classes)
qed

lemma props_data_supported:
  "list_all (\<lambda>kf. is_supported (snd kf)) ps \<Longrightarrow>
   \<exists>ds. props_data (map snd ps) = Inr ds \<and> length ds = length ps"
proof (induction ps)
  case Nil
  then show ?case by simp
next
  case (Cons kf ps)
  then obtain ds where "props_data (map snd ps) = Inr ds" "length ds = length ps" by auto
  moreover obtain d where "field_data (snd kf) = Inr d"
    using Cons.prems by (cases "snd kf") auto
  ultimately show ?case by auto
qed

lemma update_subwidgets_simps [simp]:
  "parent_is_node (fst (update_subwidgets nm self)) = parent_is_node self"
  "node_name (fst (update_subwidgets nm self)) = node_name self"
  "node_label_name (fst (update_subwidgets nm self)) = node_label_name self"
  "node_properties_widgets (fst (update_subwidgets nm self)) = node_properties_widgets self"
  "node_subwidgets (fst (update_subwidgets nm self)) = node_subwidgets self"
  "node_select_combo (fst (update_subwidgets nm self)) = node_select_combo self"
  "node_selected_widget (fst (update_subwidgets nm self)) =
     update_loop nm (node_subwidgets self) (node_selected_widget self)"
  "snd (update_subwidgets nm self) = Inr ()"
  by (cases self; simp add: update_subwidgets_def)+

lemma node_ok_update_subwidgets: "node_ok self \<Longrightarrow> node_ok (fst (update_subwidgets nm self))"
proof (cases self)
  case (AdaptiveTreeNode p n l ps ss c s)
  assume ok: "node_ok self"
  show ?thesis
  proof (cases "nm \<in> set (map fst ss)")
    case True
    with ok AdaptiveTreeNode show ?thesis
      by (auto simp: update_subwidgets_def update_loop_present)
  next
    case False
    with ok AdaptiveTreeNode show ?thesis
      by (simp add: update_subwidgets_def update_loop_absent)
  qed
qed


lemma init_select_combo_result:
  "init_select_combo (AdaptiveTreeNode p n l ps ss None None) =
     Inr (if ss = [] then AdaptiveTreeNode p n l ps ss None None
          else AdaptiveTreeNode p n l ps ss (Some (Combo (map fst ss) 0)) (Some (fst (hd ss))))"
proof (cases ss)
  case Nil
  then show ?thesis by (simp add: init_select_combo_def)
next
  case (Cons kw rest)
  have c: "addItems (map fst ss) (clear QComboBox) = Combo (map fst ss) 0"
    using Cons by (simp add: addItems_def clear_def)
  have t: "currentText (Combo (map fst ss) 0) = fst kw"
    using Cons by (simp add: currentText_def)
  have "update_loop (fst kw) ss None = Some (fst kw)"
    using Cons by (intro update_loop_present) simp
  then show ?thesis
    using Cons c t by (simp add: init_select_combo_def update_subwidgets_def del: update_loop.simps)
qed

lemma all_nodes_self: "self \<in> set (all_nodes self)"
  by (cases self) simp

lemma init_built:
  "(AdaptiveTreeNode_init parent tree = Inr n \<longrightarrow>
      node_ok n \<and> combo_ok n \<and> parent_is_node n = (parent \<noteq> None) \<and>
      s_name tree = Some (node_name n) \<and> list_all first_selected (all_nodes n))"
  "(init_subwidgets nm infos acc = Inr ss \<longrightarrow> distinct (map fst acc) \<longrightarrow>
      list_all (\<lambda>kw. freshly_built (snd kw)) acc \<longrightarrow>
      distinct (map fst ss) \<and> list_all (\<lambda>kw. freshly_built (snd kw)) ss)"
proof (induction parent tree and nm infos acc arbitrary: n and ss
    rule: AdaptiveTreeNode_init_init_subwidgets.induct)
  case (1 parent tree_name tree_properties tree_subwidgets)
  show ?case
  proof
    assume a: "AdaptiveTreeNode_init parent (Schema tree_name tree_properties tree_subwidgets) = Inr n"
    then obtain nm where nm: "tree_name = Some nm" by (auto split: option.splits)
    from a nm obtain subs where subs:
      "(case tree_subwidgets of None \<Rightarrow> Inr [] | Some infos \<Rightarrow> init_subwidgets nm infos []) = Inr subs"
      by (auto split: sum.splits)
    from a nm subs obtain props where props:
      "(case tree_properties of None \<Rightarrow> Inr [] | Some ds \<Rightarrow> init_properties ds []) = Inr props"
      by (auto split: sum.splits)
    have n: "n = (if subs = [] then
                    AdaptiveTreeNode (parent \<noteq> None) nm
                      (map_option (\<lambda>parent_name. nm @ '' '' @ parent_name) parent) props subs None None
                  else AdaptiveTreeNode (parent \<noteq> None) nm
                      (map_option (\<lambda>parent_name. nm @ '' '' @ parent_name) parent) props subs
                      (Some (Combo (map fst subs) 0)) (Some (fst (hd subs))))"
      using a nm subs props by (auto simp: init_select_combo_result)
    have s: "distinct (map fst subs) \<and> list_all (\<lambda>kw. freshly_built (snd kw)) subs"
    proof (cases tree_subwidgets)
      case None
      with subs show ?thesis by simp
    next
      case (Some infos)
      with subs 1 [OF nm Some, of subs] show ?thesis by simp
    qed
    have p: "list_all (\<lambda>kf. is_supported (snd kf)) props"
    proof (cases tree_properties)
      case None
      with props show ?thesis by simp
    next
      case (Some ds)
      with props init_properties_supported [of ds "[]" props] show ?thesis by simp
    qed
    have ok: "list_all (\<lambda>kw. parent_is_node (snd kw) \<and> node_ok (snd kw)) subs"
      using s by (auto simp: list_all_iff freshly_built_def)
    have fs: "list_all first_selected (concat (map (\<lambda>kw. all_nodes (snd kw)) subs))"
      using s by (auto simp: list_all_iff freshly_built_def)
    show "node_ok n \<and> combo_ok n \<and> parent_is_node n = (parent \<noteq> None) \<and>
      s_name (Schema tree_name tree_properties tree_subwidgets) = Some (node_name n) \<and>
      list_all first_selected (all_nodes n)"
    proof (cases "subs = []")
      case True
      with n nm s p show ?thesis by (simp add: combo_ok_def first_selected_def)
    next
      case False
      then have hd: "fst (hd subs) \<in> set (map fst subs)" by (cases subs) auto
      have ct: "currentText (Combo (map fst subs) 0) = fst (hd subs)"
        using False by (cases subs) (auto simp: currentText_def)
      from False n nm s p ok fs hd ct show ?thesis
        by (simp add: combo_ok_def first_selected_def)
    qed
  qed
next
  case (2 nm acc)
  then show ?case by simp
next
  case (3 nm subwidget_info rest acc)
  show ?case
  proof (intro impI)
    assume a: "init_subwidgets nm (subwidget_info # rest) acc = Inr ss"
      and d: "distinct (map fst acc)"
      and f: "list_all (\<lambda>kw. freshly_built (snd kw)) acc"
    from a obtain w where w: "AdaptiveTreeNode_init (Some nm) subwidget_info = Inr w"
      by (auto split: sum.splits)
    from a w obtain k where k: "s_name subwidget_info = Some k"
      by (auto split: option.splits)
    from a w k have r: "init_subwidgets nm rest (AList.update k w acc) = Inr ss" by simp
    have "freshly_built w" using 3(1) [of w] w by (simp add: freshly_built_def)
    then have "list_all (\<lambda>kw. freshly_built (snd kw)) (AList.update k w acc)"
      using f by (intro list_all_snd_update [where Q = freshly_built])
    moreover have "distinct (map fst (AList.update k w acc))"
      using d by (simp add: AList.distinct_update)
    ultimately show "distinct (map fst ss) \<and> list_all (\<lambda>kw. freshly_built (snd kw)) ss"
      using 3(2) [OF w k, of ss] r by simp
  qed
qed


lemma node_ok_child:
  "node_ok self \<Longrightarrow> map_of (node_subwidgets self) k = Some w \<Longrightarrow> node_ok w \<and> parent_is_node w"
proof -
  assume ok: "node_ok self" and m: "map_of (node_subwidgets self) k = Some w"
  have "list_all (\<lambda>kw. parent_is_node (snd kw) \<and> node_ok (snd kw)) (node_subwidgets self)"
    using ok by (cases self) simp
  from map_of_list_all_snd [where Q = "\<lambda>w. parent_is_node w \<and> node_ok w", OF this m]
  show ?thesis by simp
qed

lemma node_ok_set_child:
  assumes "node_ok self" and "map_of (node_subwidgets self) k = Some w"
    and "node_ok w'" and "parent_is_node w'"
  shows "node_ok (set_subwidgets (AList.update k w' (node_subwidgets self)) self)"
proof (cases self)
  case (AdaptiveTreeNode p n l ps ss c s)
  have keys: "map fst (AList.update k w' ss) = map fst ss"
    using assms(2) AdaptiveTreeNode by (simp add: keys_update_present)
  have ne: "ss \<noteq> []" using assms(2) AdaptiveTreeNode by auto
  then have ne': "AList.update k w' ss \<noteq> []" using keys by (metis map_is_Nil_conv)
  have "list_all (\<lambda>kw. parent_is_node (snd kw) \<and> node_ok (snd kw)) (AList.update k w' ss)"
    using assms(1,3,4) AdaptiveTreeNode
    by (intro list_all_snd_update [where Q = "\<lambda>w. parent_is_node w \<and> node_ok w"]) auto
  then show ?thesis
    using assms(1) AdaptiveTreeNode keys ne ne' by (simp split: option.splits)
qed

lemma set_subwidgets_simps [simp]:
  "parent_is_node (set_subwidgets v self) = parent_is_node self"
  "node_name (set_subwidgets v self) = node_name self"
  "node_properties_widgets (set_subwidgets v self) = node_properties_widgets self"
  "node_subwidgets (set_subwidgets v self) = v"
  "node_select_combo (set_subwidgets v self) = node_select_combo self"
  "node_selected_widget (set_subwidgets v self) = node_selected_widget self"
  by (cases self; simp)+

lemma node_ok_modify_at:
  assumes f: "\<And>n. node_ok n \<Longrightarrow> node_ok (f n) \<and> parent_is_node (f n) = parent_is_node n"
  shows "node_ok r \<Longrightarrow>
    node_ok (modify_at p f r) \<and> parent_is_node (modify_at p f r) = parent_is_node r"
proof (induction p arbitrary: r)
  case Nil
  then show ?case using f by simp
next
  case (Cons k ks)
  show ?case
  proof (cases "map_of (node_subwidgets r) k")
    case None
    with Cons.prems show ?thesis by simp
  next
    case (Some w)
    then have "node_ok w" "parent_is_node w" using node_ok_child Cons.prems by blast+
    then have "node_ok (modify_at ks f w)" "parent_is_node (modify_at ks f w)"
      using Cons.IH by blast+
    then show ?thesis
      using Some Cons.prems node_ok_set_child by simp
  qed
qed

lemma node_ok_user_types:
  "node_ok n \<Longrightarrow> node_ok (user_types k s n) \<and> parent_is_node (user_types k s n) = parent_is_node n"
proof (cases n)
  case (AdaptiveTreeNode p nm l ps ss c sel)
  assume ok: "node_ok n"
  show ?thesis
  proof (cases "map_of ps k")
    case None
    with ok AdaptiveTreeNode show ?thesis by (simp add: user_types_def)
  next
    case (Some fld)
    have "list_all (\<lambda>kf. is_supported (snd kf)) ps" using ok AdaptiveTreeNode by simp
    from map_of_list_all_snd [where Q = is_supported, OF this Some] have "is_supported fld" .
    then have "list_all (\<lambda>kf. is_supported (snd kf)) (AList.update k (set_text s fld) ps)"
      using ok AdaptiveTreeNode by (intro list_all_snd_update [where Q = is_supported]) auto
    with ok AdaptiveTreeNode Some show ?thesis by (simp add: user_types_def)
  qed
qed

lemma set_select_combo_simps [simp]:
  "parent_is_node (set_select_combo v self) = parent_is_node self"
  "node_name (set_select_combo v self) = node_name self"
  "node_properties_widgets (set_select_combo v self) = node_properties_widgets self"
  "node_subwidgets (set_select_combo v self) = node_subwidgets self"
  "node_select_combo (set_select_combo v self) = v"
  "node_selected_widget (set_select_combo v self) = node_selected_widget self"
  by (cases self; simp)+

lemma node_ok_user_picks:
  "node_ok n \<Longrightarrow> node_ok (user_picks i n) \<and> parent_is_node (user_picks i n) = parent_is_node n"
proof (cases "node_select_combo n")
  case None
  assume "node_ok n"
  with None show ?thesis by (simp add: user_picks_def)
next
  case (Some c)
  assume ok: "node_ok n"
  have "node_ok (set_select_combo (Some c') n)" for c'
    using ok Some by (cases n) auto
  then show ?thesis
    using ok Some
    by (simp add: user_picks_def on_selection_changed_def node_ok_update_subwidgets)
qed

lemma node_ok_step:
  assumes "node_ok r"
  shows "node_ok (step e r) \<and> parent_is_node (step e r) = parent_is_node r"
proof (cases e)
  case (UserTypes p k s)
  show ?thesis
    unfolding UserTypes step.simps
    by (rule node_ok_modify_at [OF _ assms]) (rule node_ok_user_types)
next
  case (UserPicks p i)
  show ?thesis
    unfolding UserPicks step.simps
    by (rule node_ok_modify_at [OF _ assms]) (rule node_ok_user_picks)
next
  case (UpdateSubwidgets p nm)
  show ?thesis
    unfolding UpdateSubwidgets step.simps
    by (rule node_ok_modify_at [OF _ assms]) (simp add: node_ok_update_subwidgets)
qed

lemma node_ok_run:
  "node_ok r \<Longrightarrow> node_ok (run evs r) \<and> parent_is_node (run evs r) = parent_is_node r"
  unfolding run_def
proof (induction evs arbitrary: r)
  case Nil
  then show ?case by simp
next
  case (Cons e evs)
  then show ?case using node_ok_step [of r e] by simp
qed

section \<open>Loading\<close>

lemma init_issue_example:
  "AdaptiveTreeNode_init (Some ''Form'') issue_example = Inr example_issue"
  by (simp add: issue_example_def example_issue_def init_select_combo_result
      SUPPORTED_USER_FIELD_TYPES_def new_LineEditField_def new_MultipleTextEdit_def)

lemma init_named_example: "AdaptiveTreeNode_init None named_example = Inr example_root"
proof -
  have "s_name issue_example = Some ''Issue''" by (simp add: issue_example_def)
  then show ?thesis
    by (simp add: named_example_def example_root_def init_issue_example init_select_combo_result)
qed


text \<open>
  Claim C8. The claim says that a fragment without a \<open>name\<close> entry is built with the empty
  string as its name. The constructor reads \<^verbatim>\<open>tree["name"]\<close> and so raises
  \<^verbatim>\<open>KeyError\<close> for every such fragment, the dictionary of its own docstring included;
  loading that dictionary into a form fails and installs nothing.
\<close>

theorem init_name_absent:
  "AdaptiveTreeNode_init parent (Schema None tree_properties tree_subwidgets)
     = Inl (KeyError ''name'') \<and>
   AdaptiveTreeNode_init None docstring_example = Inl (KeyError ''name'') \<and>
   load_from_file (\<lambda>file_name. Inr docstring_example) file_name (AdaptiveTreeForm None)
     = (AdaptiveTreeForm None, Inl (KeyError ''name''))"
  by (simp add: docstring_example_def issue_example_def load_from_file_def)

lemma init_properties_unknown:
  "list_ex unknown_kind ps \<Longrightarrow> \<exists>e. init_properties ps acc = Inl e"
  by (induction ps acc rule: init_properties.induct)
     (auto simp: unknown_kind_def split: option.splits)

lemma init_unknown:
  "(has_unknown_kind tree \<longrightarrow> (\<exists>e. AdaptiveTreeNode_init parent tree = Inl e))"
  "(list_ex has_unknown_kind infos \<longrightarrow> (\<exists>e. init_subwidgets nm infos acc = Inl e))"
proof (induction parent tree and nm infos acc
    rule: AdaptiveTreeNode_init_init_subwidgets.induct)
  case (1 parent tree_name tree_properties tree_subwidgets)
  show ?case
  proof
    assume u: "has_unknown_kind (Schema tree_name tree_properties tree_subwidgets)"
    show "\<exists>e. AdaptiveTreeNode_init parent (Schema tree_name tree_properties tree_subwidgets) = Inl e"
    proof (cases tree_name)
      case None
      then show ?thesis by simp
    next
      case (Some nm)
      show ?thesis
      proof (cases "case tree_subwidgets of None \<Rightarrow> False | Some infos \<Rightarrow> list_ex has_unknown_kind infos")
        case True
        then obtain infos where i: "tree_subwidgets = Some infos" "list_ex has_unknown_kind infos"
          by (auto split: option.splits)
        with 1 [OF Some i(1)] obtain e where "init_subwidgets nm infos [] = Inl e" by auto
        with Some i show ?thesis by simp
      next
        case False
        with u obtain ps where p: "tree_properties = Some ps" "list_ex unknown_kind ps"
          by (auto split: option.splits)
        then obtain e where "init_properties ps [] = Inl e"
          using init_properties_unknown by blast
        with Some p show ?thesis by (auto split: sum.splits option.splits)
      qed
    qed
  qed
next
  case (2 nm acc)
  then show ?case by simp
next
  case (3 nm subwidget_info rest acc)
  show ?case
  proof
    assume u: "list_ex has_unknown_kind (subwidget_info # rest)"
    show "\<exists>e. init_subwidgets nm (subwidget_info # rest) acc = Inl e"
    proof (cases "AdaptiveTreeNode_init (Some nm) subwidget_info")
      case (Inl e)
      then show ?thesis by simp
    next
      case (Inr w)
      then have "\<not> has_unknown_kind subwidget_info" using 3(1) by auto
      with u have r: "list_ex has_unknown_kind rest" by simp
      show ?thesis
      proof (cases "s_name subwidget_info")
        case None
        with Inr show ?thesis by simp
      next
        case (Some k)
        with 3(2) [OF Inr Some] r Inr show ?thesis by simp
      qed
    qed
  qed
qed

text \<open>
  Claim C5. A call of \<^verbatim>\<open>load_from_file\<close> that raises leaves the form as it was, so its
  \<^verbatim>\<open>data()\<close> is what it was before. It raises whatever the parser raises, and it raises
  whenever some property of the schema asks for a field identifier that is not supported.
\<close>

theorem load_failure_keeps_root:
  "(load_from_file json_load file_name self = (self', Inl e) \<longrightarrow>
      self' = self \<and> form_data self' = form_data self) \<and>
   (json_load file_name = Inl e \<longrightarrow>
      load_from_file json_load file_name self = (self, Inl e)) \<and>
   (json_load file_name = Inr tree \<and> has_unknown_kind tree \<longrightarrow>
      (\<exists>e'. load_from_file json_load file_name self = (self, Inl e')))"
proof -
  have a: "self' = self \<and> form_data self' = form_data self"
    if "load_from_file json_load file_name self = (self', Inl e)"
    using that by (auto simp: load_from_file_def split: sum.splits)
  have b: "load_from_file json_load file_name self = (self, Inl e)"
    if "json_load file_name = Inl e"
    using that by (simp add: load_from_file_def)
  have c: "\<exists>e'. load_from_file json_load file_name self = (self, Inl e')"
    if "json_load file_name = Inr tree \<and> has_unknown_kind tree"
  proof -
    from that obtain e' where "AdaptiveTreeNode_init None tree = Inl e'"
      using init_unknown(1) by blast
    with that show ?thesis by (simp add: load_from_file_def)
  qed
  from a b c show ?thesis by blast
qed

theorem load_failure_keeps_root_witness:
  "has_unknown_kind unsupported_example \<and>
   load_from_file (\<lambda>file_name. Inr unsupported_example) ''model.json''
       (AdaptiveTreeForm (Some example_root))
     = (AdaptiveTreeForm (Some example_root), Inl (KeyError ''single-line'')) \<and>
   load_from_file (\<lambda>file_name. Inl JSONDecodeError) ''model.json''
       (AdaptiveTreeForm (Some example_root))
     = (AdaptiveTreeForm (Some example_root), Inl JSONDecodeError)"
  using load_failure_keeps_root
    [of "\<lambda>file_name. Inr unsupported_example" "''model.json''"
        "AdaptiveTreeForm (Some example_root)" "AdaptiveTreeForm (Some example_root)"
        "KeyError ''single-line''" unsupported_example]
    load_failure_keeps_root
    [of "\<lambda>file_name. Inl JSONDecodeError" "''model.json''"
        "AdaptiveTreeForm (Some example_root)" "AdaptiveTreeForm (Some example_root)"
        JSONDecodeError]
  by (simp add: unsupported_example_def unknown_kind_def SUPPORTED_USER_FIELD_TYPES_def
      load_from_file_def)

section \<open>Aggregation\<close>

lemma props_data_values:
  "list_all (\<lambda>kf. is_supported (snd kf)) ps \<Longrightarrow>
   \<exists>ds. props_data (map snd ps) = Inr ds \<and> map (\<lambda>kf. field_data (snd kf)) ps = map Inr ds"
proof (induction ps)
  case Nil
  then show ?case by simp
next
  case (Cons kf ps)
  then obtain ds where "props_data (map snd ps) = Inr ds"
    "map (\<lambda>kf. field_data (snd kf)) ps = map Inr ds" by auto
  moreover obtain d where "field_data (snd kf) = Inr d"
    using Cons.prems by (cases "snd kf") auto
  ultimately show ?case by auto
qed

lemma node_ok_props: "node_ok self \<Longrightarrow> list_all (\<lambda>kf. is_supported (snd kf)) (node_properties_widgets self)"
  by (cases self) simp

lemma node_ok_selected:
  "node_ok self \<Longrightarrow> node_subwidgets self \<noteq> [] \<Longrightarrow>
   \<exists>k w. node_selected_widget self = Some k \<and> map_of (node_subwidgets self) k = Some w \<and>
     selected_widget self = Some w \<and> node_ok w \<and> parent_is_node w"
proof -
  assume ok: "node_ok self" and ne: "node_subwidgets self \<noteq> []"
  then obtain k where k: "node_selected_widget self = Some k" "k \<in> set (map fst (node_subwidgets self))"
    by (cases self) (auto split: option.splits)
  then obtain w where w: "map_of (node_subwidgets self) k = Some w"
    by (metis map_of_eq_None_iff not_None_eq set_map)
  with node_ok_child [OF ok w] k show ?thesis by (simp add: selected_widget_def)
qed

lemma data_defined: "node_ok self \<Longrightarrow> parent_is_node self \<Longrightarrow> \<exists>d. data self = Inr d"
proof (induction self rule: data.induct)
  case (1 self)
  obtain ds where ds: "props_data (map snd (node_properties_widgets self)) = Inr ds"
    using props_data_values [OF node_ok_props [OF "1.prems"(1)]] by blast
  define result where
    "result = (if node_properties_widgets self \<noteq> [] then node_name self @ '' '' @ str_join '', '' ds
               else node_name self)"
  have r: "(if node_properties_widgets self \<noteq> [] then
             (case props_data (map snd (node_properties_widgets self)) of
                Inl e \<Rightarrow> Inl e
              | Inr ds \<Rightarrow> Inr (node_name self @ '' '' @ str_join '', '' ds))
           else Inr (node_name self)) = Inr result"
    using ds by (simp add: result_def)
  show ?case
  proof (cases "node_subwidgets self = []")
    case True
    with r "1.prems" show ?thesis by (subst data.simps) simp
  next
    case False
    from node_ok_selected [OF "1.prems"(1) False] obtain w where
      w: "selected_widget self = Some w" "node_ok w" "parent_is_node w" by blast
    from "1.IH"(1) [OF "1.prems"(2) r False w(1) w(2) w(3)] obtain d where "data w = Inr d" ..
    with r False w "1.prems" show ?thesis by (subst data.simps) simp
  qed
qed


lemma all_nodes_ok: "node_ok r \<Longrightarrow> n \<in> set (all_nodes r) \<Longrightarrow> node_ok n"
proof (induction r arbitrary: n rule: all_nodes.induct)
  case (1 p nm l ps ss c s)
  show ?case
  proof (cases "n = AdaptiveTreeNode p nm l ps ss c s")
    case True
    with "1.prems" show ?thesis by simp
  next
    case False
    with "1.prems"(2) obtain kw where kw: "kw \<in> set ss" "n \<in> set (all_nodes (snd kw))" by auto
    moreover have "node_ok (snd kw)" using "1.prems"(1) kw(1) by (auto simp: list_all_iff)
    ultimately show ?thesis using "1.IH" by blast
  qed
qed



lemma keys_modify_at:
  assumes "\<And>n. map fst (node_subwidgets (f n)) = map fst (node_subwidgets n)"
  shows "map fst (node_subwidgets (modify_at p f r)) = map fst (node_subwidgets r)"
proof (cases p)
  case Nil
  then show ?thesis using assms by simp
next
  case (Cons k ks)
  then show ?thesis by (simp add: keys_update_present split: option.splits)
qed

lemma set_properties_widgets_simps [simp]:
  "parent_is_node (set_properties_widgets v self) = parent_is_node self"
  "node_name (set_properties_widgets v self) = node_name self"
  "node_properties_widgets (set_properties_widgets v self) = v"
  "node_subwidgets (set_properties_widgets v self) = node_subwidgets self"
  "node_select_combo (set_properties_widgets v self) = node_select_combo self"
  "node_selected_widget (set_properties_widgets v self) = node_selected_widget self"
  by (cases self; simp)+

lemma user_types_simps [simp]:
  "parent_is_node (user_types k s self) = parent_is_node self"
  "node_name (user_types k s self) = node_name self"
  "node_subwidgets (user_types k s self) = node_subwidgets self"
  "node_select_combo (user_types k s self) = node_select_combo self"
  "node_selected_widget (user_types k s self) = node_selected_widget self"
  by (simp_all add: user_types_def split: option.splits)

lemma user_picks_simps [simp]:
  "parent_is_node (user_picks i self) = parent_is_node self"
  "node_name (user_picks i self) = node_name self"
  "node_properties_widgets (user_picks i self) = node_properties_widgets self"
  "node_subwidgets (user_picks i self) = node_subwidgets self"
  by (simp_all add: user_picks_def on_selection_changed_def split: option.splits)

lemma keys_step: "map fst (node_subwidgets (step e r)) = map fst (node_subwidgets r)"
  by (cases e) (simp_all add: keys_modify_at)

lemma keys_run: "map fst (node_subwidgets (run evs r)) = map fst (node_subwidgets r)"
  unfolding run_def by (induction evs arbitrary: r) (simp_all add: keys_step)

text \<open>
  Claim C10. A root built from a schema without \<open>subwidgets\<close> (or with an empty list of
  them) has no children and no selection control, and nothing a user does changes that:
  its \<^verbatim>\<open>data()\<close> calls \<^verbatim>\<open>currentText\<close> on \<^verbatim>\<open>None\<close> and raises, and so does the
  \<^verbatim>\<open>data()\<close> of the form.
\<close>

theorem root_without_children_fails:
  assumes "AdaptiveTreeNode_init None tree = Inr r0"
  shows "(s_subwidgets tree = None \<or> s_subwidgets tree = Some [] \<longrightarrow> node_subwidgets r0 = []) \<and>
     (node_subwidgets r0 = [] \<longrightarrow>
        data (run evs r0) = Inl AttributeError \<and>
        form_data (AdaptiveTreeForm (Some (run evs r0))) = Inl AttributeError)"
proof -
  have ok: "node_ok (run evs r0)" "\<not> parent_is_node (run evs r0)"
    using init_built(1) [of None tree r0] assms node_ok_run [of r0 evs] by auto
  have a: "node_subwidgets r0 = []" if "s_subwidgets tree = None \<or> s_subwidgets tree = Some []"
    using that assms
    by (cases tree) (auto simp: init_select_combo_result split: option.splits sum.splits if_splits)
  have b: "data (run evs r0) = Inl AttributeError"
    if "node_subwidgets r0 = []"
  proof -
    have "node_subwidgets (run evs r0) = []" using keys_run [of evs r0] that by simp
    then have "node_select_combo (run evs r0) = None" using ok(1) by (cases "run evs r0") simp
    then show ?thesis using ok(2) by (subst data.simps) simp
  qed
  from a b show ?thesis by (simp add: form_data_def)
qed

theorem root_without_children_fails_witness:
  "AdaptiveTreeNode_init None (Schema (Some ''Form'') None None)
     = Inr (AdaptiveTreeNode False ''Form'' None [] [] None None) \<and>
   data (AdaptiveTreeNode False ''Form'' None [] [] None None) = Inl AttributeError"
  using root_without_children_fails
    [of "Schema (Some ''Form'') None None" "AdaptiveTreeNode False ''Form'' None [] [] None None" "[]"]
  by (simp add: init_select_combo_result run_def)

lemma set_selected_widget_same [simp]: "set_selected_widget (node_selected_widget self) self = self"
  by (cases self) simp

lemma set_subwidgets_same [simp]: "set_subwidgets (node_subwidgets self) self = self"
  by (cases self) simp

lemma modify_at_fixed: "node_at p r = Some n \<Longrightarrow> f n = n \<Longrightarrow> modify_at p f r = r"
  by (induction p arbitrary: r) (auto simp: AList.update_triv split: option.splits)

text \<open>
  Claim C4, as the code has it. \<^verbatim>\<open>update_subwidgets\<close> called with a name that is not a
  key of \<^verbatim>\<open>_subwidgets\<close> raises nothing: it returns normally, \<^verbatim>\<open>_selected_widget\<close> is
  what it was, and so is the \<^verbatim>\<open>data()\<close> of the node and of any tree the node is part of.
\<close>

theorem update_unknown_child:
  assumes "nm \<notin> set (map fst (node_subwidgets self))"
  shows "snd (update_subwidgets nm self) = Inr () \<and>
     node_selected_widget (fst (update_subwidgets nm self)) = node_selected_widget self \<and>
     data (fst (update_subwidgets nm self)) = data self \<and>
     (node_at p r = Some self \<longrightarrow> data (step (UpdateSubwidgets p nm) r) = data r)"
proof -
  have same: "fst (update_subwidgets nm self) = self"
    using assms by (simp add: update_subwidgets_def update_loop_absent)
  have "modify_at p (\<lambda>self. fst (update_subwidgets nm self)) r = r"
    if "node_at p r = Some self"
    using that same by (intro modify_at_fixed [where n = self]) simp_all
  with same show ?thesis by simp
qed

theorem update_unknown_child_witness:
  "''DoesNotExist'' \<notin> set (map fst (node_subwidgets example_root)) \<and>
   node_at [] example_root = Some example_root \<and>
   snd (update_subwidgets ''DoesNotExist'' example_root) = Inr () \<and>
   data (step (UpdateSubwidgets [] ''DoesNotExist'') example_root) = data example_root"
  using update_unknown_child [of "''DoesNotExist''" example_root "[]" example_root]
  by (simp add: example_root_def example_issue_def)

text \<open>
  The claim itself asks for an error at this point. On the tree built from the example
  schema the call with a name that no child has returns normally.
\<close>

theorem update_unknown_child_no_error:
  "''DoesNotExist'' \<notin> set (map fst (node_subwidgets example_root)) \<and>
   \<not> isl (snd (update_subwidgets ''DoesNotExist'' example_root))"
  by (simp add: example_root_def example_issue_def)

section \<open>The active child\<close>

lemma one_entry_per_key:
  "distinct (map fst ss) \<Longrightarrow> k \<in> set (map fst ss) \<Longrightarrow>
   length (filter (\<lambda>kw. Some k = Some (fst kw)) ss) = 1"
proof (induction ss)
  case Nil
  then show ?case by simp
next
  case (Cons kw ss)
  show ?case
  proof (cases "fst kw = k")
    case True
    then have "k \<notin> set (map fst ss)" using Cons.prems(1) by auto
    then have "filter (\<lambda>kw. Some k = Some (fst kw)) ss = []"
      by (auto simp: filter_empty_conv)
    with True show ?thesis by simp
  next
    case False
    with Cons show ?thesis by auto
  qed
qed

lemma node_ok_one_active:
  "node_ok n \<Longrightarrow> node_subwidgets n \<noteq> [] \<Longrightarrow> length (active_children n) = 1"
proof -
  assume ok: "node_ok n" and ne: "node_subwidgets n \<noteq> []"
  then obtain k where "node_selected_widget n = Some k" "k \<in> set (map fst (node_subwidgets n))"
    "distinct (map fst (node_subwidgets n))"
    by (cases n) (auto split: option.splits)
  then show ?thesis
    using one_entry_per_key [of "node_subwidgets n" k] by (simp add: active_children_def)
qed

lemma update_first_key:
  "acc \<noteq> [] \<Longrightarrow> AList.update k v acc \<noteq> [] \<and> fst (hd (AList.update k v acc)) = fst (hd acc)"
  by (cases acc) auto

lemma init_subwidgets_first_key:
  "init_subwidgets nm infos acc = Inr ss \<Longrightarrow> acc \<noteq> [] \<Longrightarrow>
   ss \<noteq> [] \<and> fst (hd ss) = fst (hd acc)"
proof (induction infos arbitrary: acc)
  case Nil
  then show ?case by simp
next
  case (Cons info infos)
  from Cons.prems(1) obtain w k where w: "AdaptiveTreeNode_init (Some nm) info = Inr w"
    "s_name info = Some k" "init_subwidgets nm infos (AList.update k w acc) = Inr ss"
    by (auto split: sum.splits option.splits)
  from Cons.IH [OF w(3)] update_first_key [OF Cons.prems(2), of k w] show ?case by simp
qed

lemma init_first_child:
  assumes "AdaptiveTreeNode_init parent tree = Inr r0" and "s_subwidgets tree = Some (c # cs)"
  shows "node_subwidgets r0 \<noteq> [] \<and> node_selected_widget r0 = s_name c"
proof -
  obtain tn tp where tree: "tree = Schema tn tp (Some (c # cs))"
    using assms(2) by (cases tree) auto
  from assms(1) tree obtain nm subs props where
    nm: "tn = Some nm" and subs: "init_subwidgets nm (c # cs) [] = Inr subs"
    and r0: "init_select_combo (AdaptiveTreeNode (parent \<noteq> None) nm
       (map_option (\<lambda>parent_name. nm @ '' '' @ parent_name) parent) props subs None None) = Inr r0"
    by (auto split: option.splits sum.splits)
  from subs obtain w k where w: "s_name c = Some k"
    "init_subwidgets nm cs (AList.update k w []) = Inr subs"
    by (auto split: sum.splits option.splits)
  from init_subwidgets_first_key [OF w(2)] have "subs \<noteq> []" "fst (hd subs) = k" by simp_all
  with r0 w(1) show ?thesis by (auto simp: init_select_combo_result)
qed

text \<open>
  Claim C3. In a tree that the constructor has just built, every node with children
  has the first entry of its \<^verbatim>\<open>_subwidgets\<close> as its selected child, and at the top that
  entry is the one stored under the name of the schema's first subwidget. Whatever
  happens afterwards (typing, picking an item, calls of \<^verbatim>\<open>update_subwidgets\<close> with names
  that exist or do not), every node with children has exactly one entry of
  \<^verbatim>\<open>_subwidgets\<close> that \<^verbatim>\<open>_selected_widget\<close> refers to.
\<close>

theorem exactly_one_active:
  assumes "AdaptiveTreeNode_init parent tree = Inr r0"
  shows "(\<forall>n\<in>set (all_nodes r0). first_selected n) \<and>
     (\<forall>c cs. s_subwidgets tree = Some (c # cs) \<longrightarrow> node_selected_widget r0 = s_name c) \<and>
     (\<forall>n\<in>set (all_nodes (run evs r0)).
        node_subwidgets n \<noteq> [] \<longrightarrow> length (active_children n) = 1)"
proof -
  from init_built(1) [of parent tree r0] assms
  have ok: "node_ok r0" and fs: "list_all first_selected (all_nodes r0)" by simp_all
  have "length (active_children n) = 1"
    if "n \<in> set (all_nodes (run evs r0))" "node_subwidgets n \<noteq> []" for n
    using that ok node_ok_run all_nodes_ok node_ok_one_active by blast
  moreover have "node_selected_widget r0 = s_name c" if "s_subwidgets tree = Some (c # cs)" for c cs
    using init_first_child [OF assms that] by simp
  ultimately show ?thesis using fs by (auto simp: list_all_iff)
qed

theorem exactly_one_active_witness:
  "AdaptiveTreeNode_init None named_example = Inr example_root \<and>
   list_all first_selected (all_nodes example_root) \<and>
   list_all (\<lambda>n. node_subwidgets n \<noteq> [] \<longrightarrow> length (active_children n) = 1)
     (all_nodes (run [UpdateSubwidgets [''Issue''] ''DoesNotExist'', UserPicks [''Issue''] 1,
                      UpdateSubwidgets [] ''Nobody''] example_root)) \<and>
   map (\<lambda>n. map fst (active_children n))
     (all_nodes (run [UpdateSubwidgets [''Issue''] ''DoesNotExist'', UserPicks [''Issue''] 1,
                      UpdateSubwidgets [] ''Nobody''] example_root))
     = [[''Issue''], [''In class''], [], [], []]"
  using exactly_one_active [of None named_example example_root
      "[UpdateSubwidgets [''Issue''] ''DoesNotExist'', UserPicks [''Issue''] 1,
        UpdateSubwidgets [] ''Nobody'']"]
  by (simp add: init_named_example example_root_def example_issue_def run_def first_selected_def
      active_children_def user_picks_def on_selection_changed_def update_subwidgets_def)

section \<open>The root\<close>

text \<open>
  The root reads the current text of its selection control where the other nodes read
  \<^verbatim>\<open>_selected_widget\<close>. The two agree as long as \<^verbatim>\<open>update_subwidgets\<close> is called the way
  the program calls it: from the constructor and from the control's signal.
\<close>

lemma combo_ok_cong:
  "map fst (node_subwidgets a) = map fst (node_subwidgets b) \<Longrightarrow>
   node_select_combo a = node_select_combo b \<Longrightarrow>
   node_selected_widget a = node_selected_widget b \<Longrightarrow> combo_ok a = combo_ok b"
  by (auto simp: combo_ok_def split: option.splits)

lemma modify_at_deeper_simps [simp]:
  "node_select_combo (modify_at (k # ks) f r) = node_select_combo r"
  "node_selected_widget (modify_at (k # ks) f r) = node_selected_widget r"
  "node_properties_widgets (modify_at (k # ks) f r) = node_properties_widgets r"
  "node_name (modify_at (k # ks) f r) = node_name r"
  "parent_is_node (modify_at (k # ks) f r) = parent_is_node r"
  by (simp_all split: option.splits)

lemma keys_modify_at_deeper:
  "map fst (node_subwidgets (modify_at (k # ks) f r)) = map fst (node_subwidgets r)"
  by (simp add: keys_update_present split: option.splits)

lemma combo_ok_modify_at:
  assumes "\<And>n. combo_ok n \<Longrightarrow> combo_ok (f n)"
  shows "combo_ok r \<Longrightarrow> combo_ok (modify_at p f r)"
proof (cases p)
  case Nil
  assume "combo_ok r"
  with Nil assms show ?thesis by simp
next
  case (Cons k ks)
  assume "combo_ok r"
  moreover have "combo_ok (modify_at (k # ks) f r) = combo_ok r"
    by (rule combo_ok_cong) (simp_all add: keys_modify_at_deeper del: modify_at.simps)
  ultimately show ?thesis using Cons by simp
qed

lemma combo_ok_user_types: "combo_ok n \<Longrightarrow> combo_ok (user_types k s n)"
  using combo_ok_cong [of "user_types k s n" n] by simp

lemma combo_ok_user_picks: "combo_ok n \<Longrightarrow> combo_ok (user_picks i n)"
proof (cases "node_select_combo n")
  case None
  assume "combo_ok n"
  with None show ?thesis by (simp add: user_picks_def)
next
  case (Some c)
  assume ok: "combo_ok n"
  show ?thesis
  proof (cases "i < length (items c) \<and> int i \<noteq> currentIndex c")
    case False
    with ok Some show ?thesis by (auto simp: user_picks_def)
  next
    case True
    show ?thesis
    proof (cases "node_subwidgets n = []")
      case True
      then show ?thesis by (simp add: combo_ok_def)
    next
      case False
      with ok Some have it: "items c = map fst (node_subwidgets n)" by (simp add: combo_ok_def)
      with True have "items c ! i \<in> set (map fst (node_subwidgets n))" by (metis nth_mem)
      then have "update_loop (items c ! i) (node_subwidgets n) (node_selected_widget n)
                   = Some (items c ! i)"
        by (rule update_loop_present)
      with True Some it show ?thesis
        by (simp add: user_picks_def on_selection_changed_def combo_ok_def currentText_def)
    qed
  qed
qed

lemma combo_ok_step: "combo_ok r \<Longrightarrow> is_user_event e \<Longrightarrow> combo_ok (step e r)"
  by (cases e) (simp_all add: combo_ok_modify_at combo_ok_user_types combo_ok_user_picks)

lemma combo_ok_run: "combo_ok r \<Longrightarrow> \<forall>e\<in>set evs. is_user_event e \<Longrightarrow> combo_ok (run evs r)"
  unfolding run_def by (induction evs arbitrary: r) (simp_all add: combo_ok_step)

lemma set_name_simps [simp]:
  "parent_is_node (set_name v self) = parent_is_node self"
  "node_name (set_name v self) = v"
  "node_properties_widgets (set_name v self) = node_properties_widgets self"
  "node_subwidgets (set_name v self) = node_subwidgets self"
  "node_select_combo (set_name v self) = node_select_combo self"
  "node_selected_widget (set_name v self) = node_selected_widget self"
  by (cases self; simp)+

lemma root_data:
  assumes "node_ok r" "combo_ok r" "\<not> parent_is_node r" "node_subwidgets r \<noteq> []"
  shows "\<exists>w d. selected_widget r = Some w \<and> node_ok w \<and> parent_is_node w \<and>
     data w = Inr d \<and> data r = Inr d"
proof -
  from node_ok_selected [OF assms(1,4)] obtain k w where
    w: "node_selected_widget r = Some k" "map_of (node_subwidgets r) k = Some w"
       "selected_widget r = Some w" "node_ok w" "parent_is_node w" by blast
  from assms(2,4) w(1) obtain c where
    c: "node_select_combo r = Some c" "currentText c = k"
    by (auto simp: combo_ok_def split: option.splits)
  obtain d where d: "data w = Inr d" using data_defined w by blast
  have "data r = data w" using assms(3) c w(2) by (subst data.simps) simp
  with w d show ?thesis by auto
qed

text \<open>
  Claim C1. Take a tree built by the constructor as a root (its parent is not a node),
  let the user type and pick as they like, and let the root have children. Then the
  root's \<^verbatim>\<open>data()\<close> is the \<^verbatim>\<open>data()\<close> of its selected child, a string, and it is what the
  form returns. The root's name and fields play no part in it: put any other name and
  any other fields on the root and the result is the same.
\<close>

theorem root_data_is_active_child:
  assumes "AdaptiveTreeNode_init None tree = Inr r0"
    and "\<forall>e\<in>set evs. is_user_event e"
    and "node_subwidgets (run evs r0) \<noteq> []"
  shows "\<exists>w d. selected_widget (run evs r0) = Some w \<and> data w = Inr d \<and>
     data (run evs r0) = Inr d \<and>
     form_data (AdaptiveTreeForm (Some (run evs r0))) = Inr (Some d) \<and>
     (\<forall>nm ps. data (set_name nm (set_properties_widgets ps (run evs r0))) = Inr d)"
proof -
  let ?r = "run evs r0"
  from init_built(1) [of None tree r0] assms(1)
  have "node_ok r0" "combo_ok r0" "\<not> parent_is_node r0" by simp_all
  then have r: "node_ok ?r" "combo_ok ?r" "\<not> parent_is_node ?r"
    using node_ok_run [of r0 evs] combo_ok_run [OF _ assms(2)] by simp_all
  from root_data [OF r assms(3)] obtain w d where
    w: "selected_widget ?r = Some w" "data w = Inr d" "data ?r = Inr d" by blast
  have "data (set_name nm (set_properties_widgets ps ?r)) = data ?r" for nm ps
    using r(3) by (subst data.simps, subst (2) data.simps) (simp split: option.splits)
  with w show ?thesis by (auto simp: form_data_def)
qed

theorem root_data_is_active_child_witness:
  "AdaptiveTreeNode_init None named_example = Inr example_root \<and>
   list_all is_user_event
     [UserTypes [''Issue''] ''issue_number'' ''42'', UserPicks [''Issue''] 1,
      UserTypes [''Issue'', ''In class''] ''class_names'' (''Foo'' @ [newline] @ ''Bar'')] \<and>
   node_subwidgets (run
     [UserTypes [''Issue''] ''issue_number'' ''42'', UserPicks [''Issue''] 1,
      UserTypes [''Issue'', ''In class''] ''class_names'' (''Foo'' @ [newline] @ ''Bar'')]
     example_root) \<noteq> [] \<and>
   data (run
     [UserTypes [''Issue''] ''issue_number'' ''42'', UserPicks [''Issue''] 1,
      UserTypes [''Issue'', ''In class''] ''class_names'' (''Foo'' @ [newline] @ ''Bar'')]
     example_root) = Inr ''Issue 42 In class Foo, Bar''"
  using root_data_is_active_child [of named_example example_root
     "[UserTypes [''Issue''] ''issue_number'' ''42'', UserPicks [''Issue''] 1,
      UserTypes [''Issue'', ''In class''] ''class_names'' (''Foo'' @ [newline] @ ''Bar'')]"]
  by (simp add: init_named_example example_root_def example_issue_def run_def user_types_def user_picks_def
      on_selection_changed_def update_subwidgets_def data.simps selected_widget_def
      currentText_def newline_def)

section \<open>Field values across a change of selection\<close>





lemma user_picks_label [simp]: "node_label_name (user_picks i self) = node_label_name self"
  by (cases self) (simp add: user_picks_def on_selection_changed_def update_subwidgets_def
      split: option.splits)

lemma modify_at_deeper_label [simp]:
  "node_label_name (modify_at (k # ks) f r) = node_label_name r"
  by (cases r) (simp split: option.splits)



lemma run_four [simp]:
  "run [e1, e2, e3, e4] r = step e4 (step e3 (step e2 (step e1 r)))"
  "run [e1, e2] r = step e2 (step e1 r)"
  by (simp_all add: run_def)





end
